theory Spec2Isabelle
  imports
    Complex_Main
    "HOL-Library.Word"
    "HOL-Library.Multiset"
    "HOL-Library.List_Lexorder"
    "HOL-Library.Product_Lexorder"
begin

section \<open>Session file-change tracking: the embedded program\<close>

text \<open>
  The development embeds the session-changes utilities (\<^verbatim>\<open>getSessionTouchedFiles\<close>,
  \<^verbatim>\<open>countLineDifferences\<close>, \<^verbatim>\<open>getChangeStatus\<close>) and the git helpers of the main process
  (\<^verbatim>\<open>isGitRepo\<close>, \<^verbatim>\<open>getOriginalFromHead\<close>, \<^verbatim>\<open>getCurrentFromDisk\<close>, \<^verbatim>\<open>hasChanges\<close>,
  \<^verbatim>\<open>getFileDiff\<close>).
\<close>

subsection \<open>JavaScript strings and values\<close>

text \<open>
  A JavaScript string is a sequence of UTF-16 code units. String equality, \<^verbatim>\<open>Set\<close>
  membership and \<^verbatim>\<open>split\<close> all work on code units.
\<close>

type_synonym jschar = "16 word"
type_synonym jsstring = "jschar list"

text \<open>A string literal of the source (ASCII text) as code units.\<close>

definition lit :: "string \<Rightarrow> jsstring" where
  "lit s = map of_char s"

text \<open>A string is truthy exactly when it is not empty.\<close>

definition truthyStr :: "jsstring \<Rightarrow> bool" where
  "truthyStr s = (s \<noteq> [])"

text \<open>
  The values a \<^verbatim>\<open>Record<string, unknown>\<close> can hold. Numbers are the finite doubles
  (as reals) and \<^verbatim>\<open>NaN\<close>; objects and arrays are opaque (always truthy).
\<close>

datatype jsval = JUndefined | JNull | JBool bool | JNum real | JNaN | JStr jsstring | JObj

fun truthy :: "jsval \<Rightarrow> bool" where
  "truthy JUndefined = False"
| "truthy JNull = False"
| "truthy (JBool b) = b"
| "truthy (JNum x) = (x \<noteq> 0)"
| "truthy JNaN = False"
| "truthy (JStr s) = truthyStr s"
| "truthy JObj = True"

text \<open>\<^verbatim>\<open>a || b\<close>: the left operand when it is truthy, otherwise the right one.\<close>

definition jsOr :: "jsval \<Rightarrow> jsval \<Rightarrow> jsval" where
  "jsOr a b = (if truthy a then a else b)"

text \<open>\<^verbatim>\<open>s.split('\n')\<close>: the pieces between newlines; the empty string gives one empty piece.\<close>

definition newline :: jschar where
  "newline = 0x0A"

fun splitOn :: "jschar \<Rightarrow> jsstring \<Rightarrow> jsstring list" where
  "splitOn sep [] = [[]]"
| "splitOn sep (c # cs) =
     (if c = sep then [] # splitOn sep cs
      else (case splitOn sep cs of [] \<Rightarrow> [[c]] | l # ls \<Rightarrow> (c # l) # ls))"

text \<open>\<^verbatim>\<open>lines.join('\n')\<close>, the inverse used to speak about reordering the lines of a blob.\<close>

fun joinWith :: "jschar \<Rightarrow> jsstring list \<Rightarrow> jsstring" where
  "joinWith sep [] = []"
| "joinWith sep [l] = l"
| "joinWith sep (l # m # ls) = l @ sep # joinWith sep (m # ls)"

subsection \<open>The built-in \<^verbatim>\<open>Set\<close>\<close>

text \<open>
  A \<^verbatim>\<open>Set<string>\<close> keeps its elements in insertion order without repetition;
  it is the list of its elements in that order. \<^verbatim>\<open>add\<close> appends a new element and
  leaves the set alone when the element is already there.
\<close>

type_synonym 'a jsset = "'a list"

definition setHas :: "'a jsset \<Rightarrow> 'a \<Rightarrow> bool" where
  "setHas s x = (x \<in> set s)"

definition setAdd :: "'a jsset \<Rightarrow> 'a \<Rightarrow> 'a jsset" where
  "setAdd s x = (if setHas s x then s else s @ [x])"

definition newSet :: "'a list \<Rightarrow> 'a jsset" where
  "newSet xs = fold (\<lambda>x s. setAdd s x) xs []"

definition arrayFrom :: "'a jsset \<Rightarrow> 'a list" where
  "arrayFrom s = s"

subsection \<open>Line-diff engine\<close>

record LineCounts =
  additions :: nat
  deletions :: nat

text \<open>
  The two counting loops of \<^verbatim>\<open>countLineDifferences\<close>: walk the array of lines and
  increment the counter for each line the other side's set does not have.
\<close>

fun countAbsent :: "jsstring jsset \<Rightarrow> jsstring list \<Rightarrow> nat \<Rightarrow> nat" where
  "countAbsent other [] n = n"
| "countAbsent other (line # rest) n =
     countAbsent other rest (if \<not> setHas other line then n + 1 else n)"

definition countLineDifferences :: "jsstring \<Rightarrow> jsstring \<Rightarrow> LineCounts" where
  "countLineDifferences original modified =
     (let originalLines = splitOn newline original;
          modifiedLines = splitOn newline modified;
          originalSet = newSet originalLines;
          modifiedSet = newSet modifiedLines
      in \<lparr> LineCounts.additions = countAbsent originalSet modifiedLines 0,
           LineCounts.deletions = countAbsent modifiedSet originalLines 0 \<rparr>)"

datatype ChangeStatus = Modified | Added | Deleted

definition getChangeStatus :: "jsstring \<Rightarrow> jsstring \<Rightarrow> ChangeStatus" where
  "getChangeStatus original modified =
     (if \<not> truthyStr original \<and> truthyStr modified then Added
      else if truthyStr original \<and> \<not> truthyStr modified then Deleted
      else Modified)"

text \<open>
  The reading of the line counts as sizes of set differences: each side a set of distinct
  line contents. This definition follows the specification's words, not the code; it is
  compared with \<open>countLineDifferences\<close> below.
\<close>

definition specLineSetCounts :: "jsstring \<Rightarrow> jsstring \<Rightarrow> LineCounts" where
  "specLineSetCounts original modified =
     \<lparr> LineCounts.additions = card (set (splitOn newline modified) - set (splitOn newline original)),
       LineCounts.deletions = card (set (splitOn newline original) - set (splitOn newline modified)) \<rparr>"

subsection \<open>Touched-file extractor\<close>

text \<open>
  \<^verbatim>\<open>String.prototype.trim\<close> removes the white space and line terminator code units of
  ECMAScript from both ends.
\<close>

definition isWhiteSpace :: "jschar \<Rightarrow> bool" where
  "isWhiteSpace c =
     (c \<in> set [0x09, 0x0A, 0x0B, 0x0C, 0x0D, 0x20, 0xA0, 0x1680, 0x2028, 0x2029,
               0x202F, 0x205F, 0x3000, 0xFEFF]
      \<or> (0x2000 \<le> c \<and> c \<le> 0x200A))"

definition trim :: "jsstring \<Rightarrow> jsstring" where
  "trim s = rev (dropWhile isWhiteSpace (rev (dropWhile isWhiteSpace s)))"

text \<open>
  \<^verbatim>\<open>String.prototype.toLowerCase\<close> on the ASCII letters. The full Unicode mapping also
  changes characters outside ASCII; the only one it sends to a single ASCII letter is the
  Kelvin sign (to \<^verbatim>\<open>k\<close>), and \<^verbatim>\<open>k\<close> occurs in no name of \<^verbatim>\<open>FILE_MODIFYING_TOOLS\<close>. So a
  tool name lower-cases to one of these names under the full mapping exactly when it does
  under this one, which is the only use the source makes of the result.
\<close>

definition toLowerCase :: "jsstring \<Rightarrow> jsstring" where
  "toLowerCase s = map (\<lambda>c. if 0x41 \<le> c \<and> c \<le> 0x5A then c + 0x20 else c) s"

text \<open>
  \<^verbatim>\<open>MessageLike\<close>: every field is optional. The tool input is an object read by
  property name; an absent property reads \<^verbatim>\<open>undefined\<close>.
\<close>

record MessageLike =
  type :: "jsstring option"
  role :: "jsstring option"
  toolName :: "jsstring option"
  toolInput :: "(jsstring \<rightharpoonup> jsval) option"

definition getProp :: "(jsstring \<rightharpoonup> jsval) \<Rightarrow> jsstring \<Rightarrow> jsval" where
  "getProp obj k = (case obj k of None \<Rightarrow> JUndefined | Some v \<Rightarrow> v)"

definition FILE_MODIFYING_TOOLS :: "jsstring list" where
  "FILE_MODIFYING_TOOLS = [lit ''edit'', lit ''write'', lit ''multiedit'']"

definition arrayIncludes :: "'a list \<Rightarrow> 'a \<Rightarrow> bool" where
  "arrayIncludes xs x = (x \<in> set xs)"

definition isToolMessage :: "MessageLike \<Rightarrow> bool" where
  "isToolMessage msg = (type msg = Some (lit ''tool'') \<or> role msg = Some (lit ''tool''))"

text \<open>
  One pass of the loop of \<^verbatim>\<open>getSessionTouchedFiles\<close> over a message: each
  \<^verbatim>\<open>continue\<close> leaves the set \<open>files\<close> as it is.
\<close>

definition touchedStep :: "jsstring jsset \<Rightarrow> MessageLike \<Rightarrow> jsstring jsset" where
  "touchedStep files msg =
     (if \<not> isToolMessage msg \<or> toolInput msg = None then files
      else
        (case map_option toLowerCase (toolName msg) of
           None \<Rightarrow> files
         | Some name \<Rightarrow>
             if \<not> truthyStr name \<or> \<not> arrayIncludes FILE_MODIFYING_TOOLS name then files
             else
               (case toolInput msg of
                  None \<Rightarrow> files
                | Some input \<Rightarrow>
                    (case jsOr (getProp input (lit ''file_path'')) (getProp input (lit ''path'')) of
                       JStr filePath \<Rightarrow>
                         if truthyStr (trim filePath) then setAdd files filePath else files
                     | _ \<Rightarrow> files))))"

text \<open>
  \<^verbatim>\<open>Array.prototype.sort\<close> with a comparator: a stable sort, here by insertion. An
  element goes before the first element it does not compare greater than, so elements
  the comparator ties keep the order they had in the array.
\<close>

fun insertSorted :: "('a \<Rightarrow> 'a \<Rightarrow> int) \<Rightarrow> 'a \<Rightarrow> 'a list \<Rightarrow> 'a list" where
  "insertSorted cmp x [] = [x]"
| "insertSorted cmp x (y # ys) =
     (if cmp x y \<le> 0 then x # y # ys else y # insertSorted cmp x ys)"

definition arraySort :: "('a \<Rightarrow> 'a \<Rightarrow> int) \<Rightarrow> 'a list \<Rightarrow> 'a list" where
  "arraySort cmp xs = foldr (insertSorted cmp) xs []"

text \<open>
  \<^verbatim>\<open>String.prototype.localeCompare\<close> is the platform's collation; it is a parameter of
  the model.
\<close>

definition getSessionTouchedFiles ::
  "(jsstring \<Rightarrow> jsstring \<Rightarrow> int) \<Rightarrow> MessageLike list \<Rightarrow> jsstring list" where
  "getSessionTouchedFiles localeCompare messages =
     (let files = fold (\<lambda>msg files. touchedStep files msg) messages []
      in arraySort (\<lambda>a b. localeCompare a b) (arrayFrom files))"

text \<open>
  The reading of the path rule in which a field that holds no usable value is skipped
  and the next field is tried. This definition follows the specification's words, not
  the code; it is compared with \<open>touchedStep\<close> below.
\<close>

definition specUsablePath :: "jsval \<Rightarrow> jsstring option" where
  "specUsablePath v = (case v of JStr s \<Rightarrow> if trim s \<noteq> [] then Some s else None | _ \<Rightarrow> None)"

definition specContributedPath :: "(jsstring \<rightharpoonup> jsval) \<Rightarrow> jsstring option" where
  "specContributedPath input =
     (case specUsablePath (getProp input (lit ''file_path'')) of
        Some s \<Rightarrow> Some s
      | None \<Rightarrow> specUsablePath (getProp input (lit ''path'')))"

text \<open>
  The path one message contributes, if any: what one pass of the loop adds to the empty
  set.
\<close>

definition contribution :: "MessageLike \<Rightarrow> jsstring option" where
  "contribution msg = (case touchedStep [] msg of [] \<Rightarrow> None | p # _ \<Rightarrow> Some p)"

text \<open>
  Sorted in byte order: ascending in the lexicographic order of the code units, which
  tells upper case from lower case (the order of \<open>jsstring\<close> as a list of words). This
  definition follows the specification's words.
\<close>

definition sortedByteOrder :: "jsstring list \<Rightarrow> bool" where
  "sortedByteOrder paths = sorted_wrt (\<lambda>a b. a \<le> b) paths"

subsection \<open>A collation for worked examples\<close>

text \<open>
  The examples below need one concrete collation. \<open>sampleLocaleCompare\<close> reproduces, on
  ASCII text and on the letter \<^verbatim>\<open>e\<close> with acute accent, three properties of
  \<^verbatim>\<open>localeCompare\<close> under the default collation of the platform (ECMA-402, CLDR root):
  letters are ordered alphabetically whatever their case, of two strings that differ only
  in case the lower-case one comes first, and canonically equivalent strings (the
  precomposed U+00E9 and the sequence U+0065 U+0301) compare equal, as ECMA-262 requires.
\<close>

definition canonicalDecomposition :: "jschar \<Rightarrow> jsstring" where
  "canonicalDecomposition c = (if c = 0xE9 then [0x65, 0x301] else [c])"

definition collationKey :: "jsstring \<Rightarrow> jsstring \<times> bool list" where
  "collationKey s =
     (let d = concat (map canonicalDecomposition s)
      in (toLowerCase d, map (\<lambda>c. 0x41 \<le> c \<and> c \<le> 0x5A) d))"

definition sampleLocaleCompare :: "jsstring \<Rightarrow> jsstring \<Rightarrow> int" where
  "sampleLocaleCompare a b =
     (if collationKey a < collationKey b then - 1
      else if collationKey a = collationKey b then 0 else 1)"

text \<open>A tool message as the session stores it, for the examples.\<close>

definition toolMessage :: "string \<Rightarrow> (jsstring \<rightharpoonup> jsval) \<Rightarrow> MessageLike" where
  "toolMessage name input =
     \<lparr> type = Some (lit ''tool''), role = None, toolName = Some (lit name),
       toolInput = Some input \<rparr>"

subsection \<open>Git helpers of the main process\<close>

text \<open>
  What a call can throw (or a promise reject with): \<^verbatim>\<open>execSync\<close> throws on a non-zero
  exit status, on its timeout, when the output exceeds \<^verbatim>\<open>maxBuffer\<close> and when the
  process cannot be started; \<^verbatim>\<open>readFile\<close> rejects with a file-system error code.
\<close>

datatype exn = ExitStatus int | TimedOut | MaxBufferExceeded | SpawnFailed | FsError string

text \<open>
  The options a call passes to \<^verbatim>\<open>execSync\<close> (the encoding, always \<^verbatim>\<open>utf-8\<close>, makes it
  return a string; times are in milliseconds, sizes in bytes).
\<close>

record ExecOptions =
  cwd :: jsstring
  timeout :: nat
  maxBuffer :: "nat option"

text \<open>
  The platform the helpers run on: the child process, the file system and the path
  module, as one snapshot. A call either returns (\<open>Inr\<close>) or throws (\<open>Inl\<close>).
\<close>

record Platform =
  execSync :: "jsstring \<Rightarrow> ExecOptions \<Rightarrow> exn + jsstring"
  existsSync :: "jsstring \<Rightarrow> bool"
  fsReadFile :: "jsstring \<Rightarrow> exn + jsstring"
  isAbsolute :: "jsstring \<Rightarrow> bool"
  relative :: "jsstring \<Rightarrow> jsstring \<Rightarrow> jsstring"

definition bindE :: "exn + 'a \<Rightarrow> ('a \<Rightarrow> exn + 'b) \<Rightarrow> exn + 'b" where
  "bindE m f = (case m of Inl e \<Rightarrow> Inl e | Inr v \<Rightarrow> f v)"

definition tryCatch :: "exn + 'a \<Rightarrow> (exn \<Rightarrow> exn + 'a) \<Rightarrow> exn + 'a" where
  "tryCatch body handler = (case body of Inl e \<Rightarrow> handler e | Inr v \<Rightarrow> Inr v)"

definition dquote :: jschar where
  "dquote = 0x22"

definition isGitRepo :: "Platform \<Rightarrow> jsstring \<Rightarrow> exn + bool" where
  "isGitRepo os workingDir =
     tryCatch
       (bindE (execSync os (lit ''git rev-parse --git-dir'')
                 \<lparr> cwd = workingDir, timeout = 5000, maxBuffer = None \<rparr>)
          (\<lambda>_. Inr True))
       (\<lambda>_. Inr False)"

definition getOriginalFromHead :: "Platform \<Rightarrow> jsstring \<Rightarrow> jsstring \<Rightarrow> exn + jsstring" where
  "getOriginalFromHead os workingDir filePath =
     tryCatch
       (let relativePath =
              (if isAbsolute os filePath then relative os workingDir filePath else filePath)
        in bindE (execSync os (lit ''git show HEAD:'' @ [dquote] @ relativePath @ [dquote])
                    \<lparr> cwd = workingDir, timeout = 10000,
                      maxBuffer = Some (10 * 1024 * 1024) \<rparr>)
             (\<lambda>content. Inr content))
       (\<lambda>error. Inr [])"

definition getCurrentFromDisk :: "Platform \<Rightarrow> jsstring \<Rightarrow> exn + jsstring" where
  "getCurrentFromDisk os filePath =
     tryCatch
       (if \<not> existsSync os filePath then Inr []
        else bindE (fsReadFile os filePath) (\<lambda>content. Inr content))
       (\<lambda>_. Inr [])"

definition hasChanges :: "Platform \<Rightarrow> jsstring \<Rightarrow> jsstring \<Rightarrow> exn + bool" where
  "hasChanges os workingDir filePath =
     tryCatch
       (let relativePath =
              (if isAbsolute os filePath then relative os workingDir filePath else filePath)
        in bindE (execSync os
                    (lit ''git diff --quiet HEAD -- '' @ [dquote] @ relativePath @ [dquote])
                    \<lparr> cwd = workingDir, timeout = 5000, maxBuffer = None \<rparr>)
             (\<lambda>_. Inr False))
       (\<lambda>_. Inr True)"

record SessionFileChange =
  filePath :: jsstring
  status :: ChangeStatus
  additions :: nat
  deletions :: nat
  original :: jsstring
  modified :: jsstring
  error :: "jsstring option"

text \<open>
  \<^verbatim>\<open>getFileDiff\<close> awaits both contents (\<^verbatim>\<open>Promise.all\<close> rejects when one of them
  rejects) and builds the entry.
\<close>

definition getFileDiff :: "Platform \<Rightarrow> jsstring \<Rightarrow> jsstring \<Rightarrow> exn + SessionFileChange" where
  "getFileDiff os workingDir path =
     bindE (getOriginalFromHead os workingDir path) (\<lambda>orig.
     bindE (getCurrentFromDisk os path) (\<lambda>modif.
       if orig = modif then
         Inr \<lparr> filePath = path, status = Modified, additions = 0, deletions = 0,
               original = [], modified = [], error = None \<rparr>
       else
         (let counts = countLineDifferences orig modif;
              st = getChangeStatus orig modif
          in Inr \<lparr> filePath = path, status = st,
                   additions = LineCounts.additions counts,
                   deletions = LineCounts.deletions counts,
                   original = orig, modified = modif, error = None \<rparr>)))"


subsection \<open>Inputs for the worked examples\<close>

text \<open>
  The path \<^verbatim>\<open>/caf\<close> followed by e-acute, once precomposed (U+00E9) and once as the letter
  followed by the combining accent (U+0065 U+0301): two different strings that are
  canonically equivalent.
\<close>

definition cafePrecomposed :: jsstring where
  "cafePrecomposed = lit ''/caf'' @ [0xE9]"

definition cafeDecomposed :: jsstring where
  "cafeDecomposed = lit ''/cafe'' @ [0x301]"

text \<open>
  A platform with a repository at \<^verbatim>\<open>/repo\<close>: \<^verbatim>\<open>a.ts\<close> is committed with content
  \<^verbatim>\<open>old\<close> and holds \<^verbatim>\<open>new\<close> on disk; \<^verbatim>\<open>same.ts\<close> is unchanged; \<^verbatim>\<open>big.ts\<close> holds
  \<^verbatim>\<open>big\<close> on disk and its committed content exceeds the buffer; \<^verbatim>\<open>locked.ts\<close> exists
  but is neither committed nor readable. Every other git command exits with status 128.
\<close>

definition samplePlatform :: Platform where
  "samplePlatform =
     \<lparr> execSync = (\<lambda>command options.
         if command = lit ''git rev-parse --git-dir'' then
           (if cwd options = lit ''/repo'' then Inr (lit ''.git'') else Inl (ExitStatus 128))
         else if command = lit ''git show HEAD:'' @ [dquote] @ lit ''a.ts'' @ [dquote]
           then Inr (lit ''old'')
         else if command = lit ''git show HEAD:'' @ [dquote] @ lit ''same.ts'' @ [dquote]
           then Inr (lit ''same'')
         else if command = lit ''git show HEAD:'' @ [dquote] @ lit ''big.ts'' @ [dquote]
           then Inl MaxBufferExceeded
         else if command = lit ''git diff --quiet HEAD -- '' @ [dquote] @ lit ''same.ts'' @ [dquote]
           then Inr []
         else if command = lit ''git diff --quiet HEAD -- '' @ [dquote] @ lit ''a.ts'' @ [dquote]
           then Inl (ExitStatus 1)
         else Inl (ExitStatus 128)),
       existsSync = (\<lambda>path. path \<in> set [lit ''/repo/a.ts'', lit ''/repo/same.ts'',
                                         lit ''/repo/big.ts'', lit ''/repo/locked.ts'']),
       fsReadFile = (\<lambda>path.
         if path = lit ''/repo/a.ts'' then Inr (lit ''new'')
         else if path = lit ''/repo/same.ts'' then Inr (lit ''same'')
         else if path = lit ''/repo/big.ts'' then Inr (lit ''big'')
         else Inl (FsError ''EACCES'')),
       isAbsolute = (\<lambda>path. case path of [] \<Rightarrow> False | c # _ \<Rightarrow> c = 0x2F),
       relative = (\<lambda>from to. drop (length from + 1) to) \<rparr>"

section \<open>Properties of the line-diff engine\<close>

lemma splitOn_nonempty: "splitOn sep s \<noteq> []"
  by (induction s) (auto split: list.splits)

lemma set_setAdd: "set (setAdd s x) = insert x (set s)"
  by (auto simp: setAdd_def setHas_def)

lemma set_fold_setAdd: "set (fold (\<lambda>x s. setAdd s x) xs acc) = set acc \<union> set xs"
  by (induction xs arbitrary: acc) (auto simp: set_setAdd)

lemma set_newSet: "set (newSet xs) = set xs"
  by (simp add: newSet_def set_fold_setAdd)

lemma distinct_setAdd: "distinct s \<Longrightarrow> distinct (setAdd s x)"
  by (auto simp: setAdd_def setHas_def)

lemma distinct_fold_setAdd: "distinct acc \<Longrightarrow> distinct (fold (\<lambda>x s. setAdd s x) xs acc)"
  by (induction xs arbitrary: acc) (auto simp: distinct_setAdd)

lemma countAbsent_eq:
  "countAbsent other ls n = n + length (filter (\<lambda>l. l \<notin> set other) ls)"
  by (induction ls arbitrary: n) (auto simp: setHas_def)

lemma additions_eq:
  "LineCounts.additions (countLineDifferences a b) =
     length (filter (\<lambda>l. l \<notin> set (splitOn newline a)) (splitOn newline b))"
  by (simp add: countLineDifferences_def Let_def countAbsent_eq set_newSet)

lemma deletions_eq:
  "LineCounts.deletions (countLineDifferences a b) =
     length (filter (\<lambda>l. l \<notin> set (splitOn newline b)) (splitOn newline a))"
  by (simp add: countLineDifferences_def Let_def countAbsent_eq set_newSet)

text \<open>
  C6: \<open>getChangeStatus\<close> answers \<open>Added\<close> exactly for an empty original with a non-empty
  modified text, \<open>Deleted\<close> exactly for a non-empty original with an empty modified text,
  and \<open>Modified\<close> in every other case, the case of two empty texts included.
\<close>

theorem getChangeStatus_classification:
  "(getChangeStatus orig modif = Added) = (orig = [] \<and> modif \<noteq> []) \<and>
   (getChangeStatus orig modif = Deleted) = (orig \<noteq> [] \<and> modif = []) \<and>
   (getChangeStatus orig modif = Modified) =
      (\<not> (orig = [] \<and> modif \<noteq> []) \<and> \<not> (orig \<noteq> [] \<and> modif = [])) \<and>
   getChangeStatus [] [] = Modified"
  by (auto simp: getChangeStatus_def truthyStr_def)

theorem getChangeStatus_classification_witness:
  "getChangeStatus [] (lit ''hello'') = Added \<and>
   getChangeStatus (lit ''hello'') [] = Deleted \<and>
   getChangeStatus (lit ''a'') (lit ''b'') = Modified"
  using getChangeStatus_classification [of "[]" "lit ''hello''"]
        getChangeStatus_classification [of "lit ''hello''" "[]"]
        getChangeStatus_classification [of "lit ''a''" "lit ''b''"]
  by (simp add: lit_def)

lemma length_filter_mset_cong:
  "mset xs = mset ys \<Longrightarrow> length (filter P xs) = length (filter P ys)"
proof -
  assume "mset xs = mset ys"
  then have "size (filter_mset P (mset xs)) = size (filter_mset P (mset ys))"
    by simp
  then show ?thesis
    by (simp only: mset_filter [symmetric] size_mset)
qed

lemma length_filter_absent_card:
  "distinct xs \<Longrightarrow> length (filter (\<lambda>l. l \<notin> S) xs) = card (set xs - S)"
proof -
  assume d: "distinct xs"
  have "set (filter (\<lambda>l. l \<notin> S) xs) = set xs - S"
    by auto
  moreover have "distinct (filter (\<lambda>l. l \<notin> S) xs)"
    using d by simp
  ultimately show ?thesis
    by (metis distinct_card)
qed

lemma splitOn_joinWith:
  "ls \<noteq> [] \<Longrightarrow> (\<And>l. l \<in> set ls \<Longrightarrow> sep \<notin> set l) \<Longrightarrow> splitOn sep (joinWith sep ls) = ls"
proof (induction sep ls rule: joinWith.induct)
  case (1 sep)
  then show ?case by simp
next
  case (2 sep l)
  then have "sep \<notin> set l" by simp
  then have "splitOn sep l = [l]"
    by (induction l) auto
  then show ?case by simp
next
  case (3 sep l m ls)
  have rest: "splitOn sep (joinWith sep (m # ls)) = m # ls"
    using 3 by simp
  have "sep \<notin> set l" using 3 by simp
  then have "splitOn sep (l @ sep # joinWith sep (m # ls)) = l # m # ls"
    using rest by (induction l) auto
  then show ?case by simp
qed

text \<open>
  C1, as amended: \<open>additions\<close> is the number of entries of the modified text's line array
  (every occurrence counted, repeated lines included) whose text is not a line of the
  original, and \<open>deletions\<close> is the same with the roles exchanged. These are the sizes of
  the set differences whenever the counted side has no repeated line.
\<close>

theorem countLineDifferences_counts_occurrences:
  "LineCounts.additions (countLineDifferences orig modif) =
     length (filter (\<lambda>l. l \<notin> set (splitOn newline orig)) (splitOn newline modif)) \<and>
   LineCounts.deletions (countLineDifferences orig modif) =
     length (filter (\<lambda>l. l \<notin> set (splitOn newline modif)) (splitOn newline orig)) \<and>
   (distinct (splitOn newline modif) \<longrightarrow>
      LineCounts.additions (countLineDifferences orig modif) =
      LineCounts.additions (specLineSetCounts orig modif)) \<and>
   (distinct (splitOn newline orig) \<longrightarrow>
      LineCounts.deletions (countLineDifferences orig modif) =
      LineCounts.deletions (specLineSetCounts orig modif))"
  by (simp add: additions_eq deletions_eq specLineSetCounts_def length_filter_absent_card)

theorem countLineDifferences_counts_occurrences_witness:
  "distinct (splitOn newline (joinWith newline [lit ''a'', lit ''c''])) \<and>
   distinct (splitOn newline (joinWith newline [lit ''a'', lit ''b''])) \<and>
   LineCounts.additions (countLineDifferences (joinWith newline [lit ''a'', lit ''b''])
                (joinWith newline [lit ''a'', lit ''c''])) = 1 \<and>
   LineCounts.additions (specLineSetCounts (joinWith newline [lit ''a'', lit ''b''])
                (joinWith newline [lit ''a'', lit ''c''])) = 1 \<and>
   LineCounts.deletions (countLineDifferences (joinWith newline [lit ''a'', lit ''b''])
                (joinWith newline [lit ''a'', lit ''c''])) = 1"
  using countLineDifferences_counts_occurrences
          [of "joinWith newline [lit ''a'', lit ''b'']" "joinWith newline [lit ''a'', lit ''c'']"]
  by (simp add: lit_def newline_def)

text \<open>
  The set-difference reading fails where a line is repeated: with original \<^verbatim>\<open>"b"\<close> and
  modified \<^verbatim>\<open>"a\na"\<close> the code reports two additions, the set difference has one element.
\<close>

theorem countLineDifferences_not_set_difference:
  "LineCounts.additions (countLineDifferences (lit ''b'') (joinWith newline [lit ''a'', lit ''a''])) = 2 \<and>
   LineCounts.additions (specLineSetCounts (lit ''b'') (joinWith newline [lit ''a'', lit ''a''])) = 1"
  by (simp add: countLineDifferences_def specLineSetCounts_def newSet_def setAdd_def
      setHas_def lit_def newline_def)

text \<open>
  C9: on two equal texts \<open>countLineDifferences\<close> reports no additions and no deletions, and
  its result does not change when the lines of either text are reordered (the texts
  \<open>a'\<close> and \<open>b'\<close> have the same lines as \<open>a\<close> and \<open>b\<close>, each as often, in any order;
  by \<open>splitOn_joinWith\<close>, joining the reordered lines of a text gives such a text).
\<close>

theorem countLineDifferences_permutation_invariant:
  "countLineDifferences a a = \<lparr> LineCounts.additions = 0, LineCounts.deletions = 0 \<rparr> \<and>
   (mset (splitOn newline a') = mset (splitOn newline a) \<longrightarrow>
    mset (splitOn newline b') = mset (splitOn newline b) \<longrightarrow>
    countLineDifferences a' b' = countLineDifferences a b)"
proof (intro conjI impI)
  show "countLineDifferences a a = \<lparr> LineCounts.additions = 0, LineCounts.deletions = 0 \<rparr>"
    by (simp add: countLineDifferences_def Let_def countAbsent_eq set_newSet)
next
  assume a: "mset (splitOn newline a') = mset (splitOn newline a)"
    and b: "mset (splitOn newline b') = mset (splitOn newline b)"
  have sa: "set (splitOn newline a') = set (splitOn newline a)"
    using a by (rule mset_eq_setD)
  have sb: "set (splitOn newline b') = set (splitOn newline b)"
    using b by (rule mset_eq_setD)
  have "LineCounts.additions (countLineDifferences a' b') = LineCounts.additions (countLineDifferences a b)"
    by (simp only: additions_eq sa length_filter_mset_cong [OF b])
  moreover have "LineCounts.deletions (countLineDifferences a' b') = LineCounts.deletions (countLineDifferences a b)"
    by (simp only: deletions_eq sb length_filter_mset_cong [OF a])
  ultimately show "countLineDifferences a' b' = countLineDifferences a b"
    by simp
qed

theorem countLineDifferences_permutation_invariant_witness:
  "mset (splitOn newline (joinWith newline [lit ''y'', lit ''x''])) =
     mset (splitOn newline (joinWith newline [lit ''x'', lit ''y''])) \<and>
   countLineDifferences (joinWith newline [lit ''x'', lit ''y''])
     (joinWith newline [lit ''y'', lit ''x'']) = \<lparr> LineCounts.additions = 0, LineCounts.deletions = 0 \<rparr>"
proof -
  let ?xy = "joinWith newline [lit ''x'', lit ''y'']"
  let ?yx = "joinWith newline [lit ''y'', lit ''x'']"
  have p: "mset (splitOn newline ?yx) = mset (splitOn newline ?xy)"
    by (simp add: lit_def newline_def)
  have "countLineDifferences ?xy ?yx = countLineDifferences ?xy ?xy"
    using countLineDifferences_permutation_invariant [of ?xy ?xy ?yx ?xy] p by simp
  moreover have "countLineDifferences ?xy ?xy = \<lparr> LineCounts.additions = 0, LineCounts.deletions = 0 \<rparr>"
    using countLineDifferences_permutation_invariant [of ?xy] by simp
  ultimately show ?thesis using p by simp
qed

section \<open>Properties of the touched-file extractor\<close>

lemma mset_insertSorted: "mset (insertSorted cmp x ys) = add_mset x (mset ys)"
  by (induction ys) auto

lemma mset_arraySort: "mset (arraySort cmp xs) = mset xs"
  by (induction xs) (auto simp: arraySort_def mset_insertSorted)

lemma set_arraySort: "set (arraySort cmp xs) = set xs"
  by (metis mset_arraySort set_mset_mset)

lemma distinct_arraySort: "distinct (arraySort cmp xs) = distinct xs"
  by (metis mset_arraySort distinct_count_atmost_1 set_mset_mset)

lemma sorted_insertSorted:
  assumes total: "\<And>a b. cmp a b \<le> 0 \<or> cmp b a \<le> 0"
    and trans: "\<And>a b c. cmp a b \<le> 0 \<Longrightarrow> cmp b c \<le> 0 \<Longrightarrow> cmp a c \<le> 0"
  shows "sorted_wrt (\<lambda>a b. cmp a b \<le> 0) ys \<Longrightarrow> sorted_wrt (\<lambda>a b. cmp a b \<le> (0::int)) (insertSorted cmp x ys)"
proof (induction ys)
  case Nil
  then show ?case by simp
next
  case (Cons y ys)
  show ?case
  proof (cases "cmp x y \<le> 0")
    case True
    then have "\<forall>z\<in>set ys. cmp x z \<le> 0"
      using Cons.prems trans by auto
    then show ?thesis using True Cons.prems by simp
  next
    case False
    then have yx: "cmp y x \<le> 0" using total [of x y] by simp
    have "set (insertSorted cmp x ys) = insert x (set ys)"
      by (metis mset_insertSorted set_mset_add_mset_insert set_mset_mset)
    then show ?thesis using False yx Cons by simp
  qed
qed

lemma sorted_arraySort:
  assumes total: "\<And>a b. cmp a b \<le> 0 \<or> cmp b a \<le> 0"
    and trans: "\<And>a b c. cmp a b \<le> 0 \<Longrightarrow> cmp b c \<le> 0 \<Longrightarrow> cmp a c \<le> 0"
  shows "sorted_wrt (\<lambda>a b. cmp a b \<le> (0::int)) (arraySort cmp xs)"
proof (induction xs)
  case Nil
  then show ?case by (simp add: arraySort_def)
next
  case (Cons x xs)
  have "arraySort cmp (x # xs) = insertSorted cmp x (arraySort cmp xs)"
    by (simp add: arraySort_def)
  then show ?case
    using sorted_insertSorted [of cmp "arraySort cmp xs" x, OF total trans] Cons by simp
qed

lemma touchedStep_contribution:
  "touchedStep files msg = (case contribution msg of None \<Rightarrow> files | Some p \<Rightarrow> setAdd files p)"
  by (simp add: contribution_def touchedStep_def setAdd_def setHas_def
      split: option.splits jsval.splits)

lemma set_touchedStep:
  "set (touchedStep files msg) = set files \<union> {p. contribution msg = Some p}"
  by (cases "contribution msg") (auto simp: touchedStep_contribution set_setAdd)

lemma set_fold_touchedStep:
  "set (fold (\<lambda>msg files. touchedStep files msg) ms acc) =
     set acc \<union> {p. \<exists>m\<in>set ms. contribution m = Some p}"
proof (induction ms arbitrary: acc)
  case Nil
  then show ?case by simp
next
  case (Cons m ms)
  have "set (fold (\<lambda>msg files. touchedStep files msg) (m # ms) acc) =
        set (touchedStep acc m) \<union> {p. \<exists>m\<in>set ms. contribution m = Some p}"
    using Cons [of "touchedStep acc m"] by simp
  then show ?case
    by (auto simp: set_touchedStep)
qed

lemma distinct_fold_touchedStep:
  "distinct acc \<Longrightarrow> distinct (fold (\<lambda>msg files. touchedStep files msg) ms acc)"
proof (induction ms arbitrary: acc)
  case Nil
  then show ?case by simp
next
  case (Cons m ms)
  have "distinct (touchedStep acc m)"
    using Cons.prems by (cases "contribution m") (auto simp: touchedStep_contribution distinct_setAdd)
  then show ?case using Cons.IH by simp
qed

lemma set_getSessionTouchedFiles:
  "set (getSessionTouchedFiles cmp ms) = {p. \<exists>m\<in>set ms. contribution m = Some p}"
  by (simp add: getSessionTouchedFiles_def arrayFrom_def set_arraySort set_fold_touchedStep)

lemma truthyStr_allowed:
  "arrayIncludes FILE_MODIFYING_TOOLS name \<Longrightarrow> truthyStr name"
  by (auto simp: arrayIncludes_def FILE_MODIFYING_TOOLS_def truthyStr_def lit_def)

lemma touchedStep_unqualified:
  assumes "\<not> (isToolMessage msg \<and>
              (\<exists>name. toolName msg = Some name \<and> toLowerCase name \<in> set FILE_MODIFYING_TOOLS))"
  shows "touchedStep files msg = files"
  using assms
  by (auto simp: touchedStep_def arrayIncludes_def split: option.splits jsval.splits)

lemma touchedStep_qualified:
  assumes "isToolMessage msg" and "toolInput msg = Some input"
    and "toolName msg = Some name" and "toLowerCase name \<in> set FILE_MODIFYING_TOOLS"
  shows "touchedStep files msg =
           (case jsOr (getProp input (lit ''file_path'')) (getProp input (lit ''path'')) of
              JStr s \<Rightarrow> if trim s \<noteq> [] then setAdd files s else files
            | _ \<Rightarrow> files)"
proof -
  have "arrayIncludes FILE_MODIFYING_TOOLS (toLowerCase name)"
    using assms(4) by (simp add: arrayIncludes_def)
  then show ?thesis
    using assms(1-3) truthyStr_allowed [of "toLowerCase name"]
    by (simp add: touchedStep_def truthyStr_def split: jsval.splits)
qed

lemma contribution_Some_qualified:
  assumes "contribution msg = Some p"
  shows "isToolMessage msg \<and>
         (\<exists>name. toolName msg = Some name \<and> toLowerCase name \<in> set FILE_MODIFYING_TOOLS)"
proof (rule ccontr)
  assume "\<not> ?thesis"
  then have "touchedStep [] msg = []"
    by (rule touchedStep_unqualified)
  then show False using assms by (simp add: contribution_def)
qed

lemma fold_touchedStep_skip:
  assumes "\<And>files. touchedStep files msg = files"
  shows "fold (\<lambda>msg files. touchedStep files msg) (before @ msg # after) acc =
         fold (\<lambda>msg files. touchedStep files msg) (before @ after) acc"
  using assms by simp

lemma sampleLocaleCompare_le:
  "(sampleLocaleCompare a b \<le> 0) = (collationKey a \<le> collationKey b)"
  by (auto simp: sampleLocaleCompare_def)

lemma sampleLocaleCompare_total:
  "sampleLocaleCompare a b \<le> 0 \<or> sampleLocaleCompare b a \<le> 0"
  unfolding sampleLocaleCompare_le by (rule linear)

lemma sampleLocaleCompare_trans:
  "sampleLocaleCompare a b \<le> 0 \<Longrightarrow> sampleLocaleCompare b c \<le> 0 \<Longrightarrow> sampleLocaleCompare a c \<le> 0"
  unfolding sampleLocaleCompare_le by (rule order_trans)

lemma sorted_wrt_unique:
  assumes anti: "\<And>a b. a \<in> set xs \<Longrightarrow> b \<in> set xs \<Longrightarrow> R a b \<Longrightarrow> R b a \<Longrightarrow> a = b"
  shows "sorted_wrt R xs \<Longrightarrow> sorted_wrt R ys \<Longrightarrow> distinct xs \<Longrightarrow> distinct ys \<Longrightarrow>
         set xs = set ys \<Longrightarrow> xs = ys"
  using anti
proof (induction xs arbitrary: ys)
  case Nil
  then show ?case by simp
next
  case (Cons x xs)
  then obtain y ys' where ys: "ys = y # ys'"
    by (cases ys) auto
  have xy: "x = y"
  proof (rule ccontr)
    assume ne: "x \<noteq> y"
    then have "x \<in> set ys'" and "y \<in> set xs"
      using Cons.prems(5) ys by auto
    then have "R y x" and "R x y"
      using Cons.prems(1,2) ys by auto
    moreover have "x \<in> set (x # xs)" and "y \<in> set (x # xs)"
      using \<open>y \<in> set xs\<close> by auto
    ultimately show False using Cons.prems(6) ne by blast
  qed
  have "set xs = set ys'"
    using Cons.prems(3,4,5) ys xy by auto
  moreover have "\<And>a b. a \<in> set xs \<Longrightarrow> b \<in> set xs \<Longrightarrow> R a b \<Longrightarrow> R b a \<Longrightarrow> a = b"
    using Cons.prems(6) by auto
  ultimately have "xs = ys'"
    using Cons.IH [of ys'] Cons.prems(1-4) ys by simp
  then show ?case using xy ys by simp
qed

lemmas example_defs =
  getSessionTouchedFiles_def touchedStep_def toolMessage_def isToolMessage_def
  arrayIncludes_def FILE_MODIFYING_TOOLS_def toLowerCase_def lit_def getProp_def jsOr_def
  truthyStr_def trim_def isWhiteSpace_def setAdd_def setHas_def arrayFrom_def arraySort_def
  sampleLocaleCompare_def collationKey_def canonicalDecomposition_def Let_def
  cafePrecomposed_def cafeDecomposed_def

lemma getSessionTouchedFiles_singleton:
  "getSessionTouchedFiles cmp [msg] = (case contribution msg of None \<Rightarrow> [] | Some p \<Rightarrow> [p])"
  by (cases "contribution msg")
     (simp_all add: getSessionTouchedFiles_def arrayFrom_def arraySort_def
        touchedStep_contribution setAdd_def setHas_def)

lemma contribution_qualified:
  assumes "isToolMessage msg" and "toolInput msg = Some input"
    and "toolName msg = Some name" and "toLowerCase name \<in> set FILE_MODIFYING_TOOLS"
  shows "contribution msg =
           (case jsOr (getProp input (lit ''file_path'')) (getProp input (lit ''path'')) of
              JStr s \<Rightarrow> if trim s \<noteq> [] then Some s else None
            | _ \<Rightarrow> None)"
  unfolding contribution_def touchedStep_qualified [OF assms]
  by (simp add: setAdd_def setHas_def split: jsval.splits)

lemma trim_nonempty_truthy: "trim s \<noteq> [] \<Longrightarrow> truthy (JStr s)"
  by (auto simp: trim_def truthyStr_def)

text \<open>
  C2, as amended: the list returned by \<open>getSessionTouchedFiles\<close> contains no duplicate
  path and is sorted ascending in the collation order of \<^verbatim>\<open>localeCompare\<close> (any consistent
  comparator: total and transitive), not in byte order.
\<close>

theorem getSessionTouchedFiles_distinct_sorted:
  assumes total: "\<And>a b. localeCompare a b \<le> 0 \<or> localeCompare b a \<le> 0"
    and trans: "\<And>a b c. localeCompare a b \<le> 0 \<Longrightarrow> localeCompare b c \<le> 0
                  \<Longrightarrow> localeCompare a c \<le> 0"
  shows "distinct (getSessionTouchedFiles localeCompare messages) \<and>
         sorted_wrt (\<lambda>a b. localeCompare a b \<le> 0)
           (getSessionTouchedFiles localeCompare messages)"
proof
  show "distinct (getSessionTouchedFiles localeCompare messages)"
    by (simp add: getSessionTouchedFiles_def arrayFrom_def distinct_arraySort
        distinct_fold_touchedStep)
  show "sorted_wrt (\<lambda>a b. localeCompare a b \<le> 0)
          (getSessionTouchedFiles localeCompare messages)"
    unfolding getSessionTouchedFiles_def Let_def
    by (rule sorted_arraySort [OF total trans])
qed

theorem getSessionTouchedFiles_distinct_sorted_witness:
  "getSessionTouchedFiles sampleLocaleCompare
     [toolMessage ''Edit'' [lit ''file_path'' \<mapsto> JStr (lit ''/B.ts'')],
      toolMessage ''Write'' [lit ''file_path'' \<mapsto> JStr (lit ''/a.ts'')],
      toolMessage ''Edit'' [lit ''path'' \<mapsto> JStr (lit ''/B.ts'')]] =
     [lit ''/a.ts'', lit ''/B.ts''] \<and>
   distinct (getSessionTouchedFiles sampleLocaleCompare
     [toolMessage ''Edit'' [lit ''file_path'' \<mapsto> JStr (lit ''/B.ts'')],
      toolMessage ''Write'' [lit ''file_path'' \<mapsto> JStr (lit ''/a.ts'')],
      toolMessage ''Edit'' [lit ''path'' \<mapsto> JStr (lit ''/B.ts'')]]) \<and>
   sorted_wrt (\<lambda>a b. sampleLocaleCompare a b \<le> 0)
     (getSessionTouchedFiles sampleLocaleCompare
       [toolMessage ''Edit'' [lit ''file_path'' \<mapsto> JStr (lit ''/B.ts'')],
        toolMessage ''Write'' [lit ''file_path'' \<mapsto> JStr (lit ''/a.ts'')],
        toolMessage ''Edit'' [lit ''path'' \<mapsto> JStr (lit ''/B.ts'')]])"
proof -
  let ?ms = "[toolMessage ''Edit'' [lit ''file_path'' \<mapsto> JStr (lit ''/B.ts'')],
      toolMessage ''Write'' [lit ''file_path'' \<mapsto> JStr (lit ''/a.ts'')],
      toolMessage ''Edit'' [lit ''path'' \<mapsto> JStr (lit ''/B.ts'')]]"
  have "getSessionTouchedFiles sampleLocaleCompare ?ms = [lit ''/a.ts'', lit ''/B.ts'']"
    by (simp add: example_defs)
  then show ?thesis
    using getSessionTouchedFiles_distinct_sorted
            [of sampleLocaleCompare ?ms, OF sampleLocaleCompare_total sampleLocaleCompare_trans]
    by simp
qed

text \<open>
  Byte order puts \<^verbatim>\<open>/B.ts\<close> before \<^verbatim>\<open>/a.ts\<close>; the collation puts \<^verbatim>\<open>/a.ts\<close> first.
\<close>

theorem getSessionTouchedFiles_not_byte_sorted:
  "getSessionTouchedFiles sampleLocaleCompare
     [toolMessage ''Edit'' [lit ''file_path'' \<mapsto> JStr (lit ''/B.ts'')],
      toolMessage ''Edit'' [lit ''file_path'' \<mapsto> JStr (lit ''/a.ts'')]] =
     [lit ''/a.ts'', lit ''/B.ts''] \<and>
   \<not> sortedByteOrder [lit ''/a.ts'', lit ''/B.ts'']"
  by (simp add: example_defs sortedByteOrder_def)

text \<open>
  C7, as amended: for every qualifying tool message the candidate is the value of
  \<^verbatim>\<open>file_path\<close> when that value is truthy and the value of \<^verbatim>\<open>path\<close> otherwise. The
  message contributes the candidate, untrimmed, when it is a string that is non-empty
  after trimming, and nothing otherwise: a truthy \<^verbatim>\<open>file_path\<close> that is not a string or
  that trims to empty makes the message contribute nothing, whatever \<^verbatim>\<open>path\<close> holds.
\<close>

theorem touched_path_selection:
  assumes "isToolMessage msg" and "toolInput msg = Some input"
    and "toolName msg = Some name" and "toLowerCase name \<in> set FILE_MODIFYING_TOOLS"
  shows
    "touchedStep files msg =
       (case contribution msg of None \<Rightarrow> files | Some p \<Rightarrow> setAdd files p) \<and>
     (getProp input (lit ''file_path'') = JStr s \<and> trim s \<noteq> [] \<longrightarrow>
        contribution msg = Some s) \<and>
     (\<not> truthy (getProp input (lit ''file_path'')) \<and>
      getProp input (lit ''path'') = JStr s \<and> trim s \<noteq> [] \<longrightarrow>
        contribution msg = Some s) \<and>
     (truthy (getProp input (lit ''file_path'')) \<and>
      (\<forall>t. getProp input (lit ''file_path'') = JStr t \<longrightarrow> trim t = []) \<longrightarrow>
        contribution msg = None) \<and>
     (\<not> truthy (getProp input (lit ''file_path'')) \<and>
      (\<forall>t. getProp input (lit ''path'') = JStr t \<longrightarrow> trim t = []) \<longrightarrow>
        contribution msg = None)"
proof (intro conjI impI)
  show "touchedStep files msg =
       (case contribution msg of None \<Rightarrow> files | Some p \<Rightarrow> setAdd files p)"
    by (rule touchedStep_contribution)
next
  assume "getProp input (lit ''file_path'') = JStr s \<and> trim s \<noteq> []"
  then show "contribution msg = Some s"
    using trim_nonempty_truthy [of s]
    by (simp add: contribution_qualified [OF assms] jsOr_def)
next
  assume "\<not> truthy (getProp input (lit ''file_path'')) \<and>
      getProp input (lit ''path'') = JStr s \<and> trim s \<noteq> []"
  then show "contribution msg = Some s"
    by (simp add: contribution_qualified [OF assms] jsOr_def)
next
  assume "truthy (getProp input (lit ''file_path'')) \<and>
      (\<forall>t. getProp input (lit ''file_path'') = JStr t \<longrightarrow> trim t = [])"
  then show "contribution msg = None"
    by (simp add: contribution_qualified [OF assms] jsOr_def split: jsval.splits)
next
  assume "\<not> truthy (getProp input (lit ''file_path'')) \<and>
      (\<forall>t. getProp input (lit ''path'') = JStr t \<longrightarrow> trim t = [])"
  then show "contribution msg = None"
    by (simp add: contribution_qualified [OF assms] jsOr_def split: jsval.splits)
qed

theorem touched_path_selection_witness:
  "contribution (toolMessage ''Edit'' [lit ''path'' \<mapsto> JStr (lit ''/a.ts'')]) =
     Some (lit ''/a.ts'') \<and>
   touchedStep [lit ''/b.ts''] (toolMessage ''Edit'' [lit ''path'' \<mapsto> JStr (lit ''/a.ts'')]) =
     [lit ''/b.ts'', lit ''/a.ts'']"
proof -
  let ?input = "[lit ''path'' \<mapsto> JStr (lit ''/a.ts'')]"
  let ?msg = "toolMessage ''Edit'' ?input"
  have q: "isToolMessage ?msg" "toolInput ?msg = Some ?input"
    "toolName ?msg = Some (lit ''Edit'')"
    "toLowerCase (lit ''Edit'') \<in> set FILE_MODIFYING_TOOLS"
    by (simp_all add: toolMessage_def isToolMessage_def toLowerCase_def lit_def
        FILE_MODIFYING_TOOLS_def)
  have f: "\<not> truthy (getProp ?input (lit ''file_path''))"
    "getProp ?input (lit ''path'') = JStr (lit ''/a.ts'')" "trim (lit ''/a.ts'') \<noteq> []"
    by (simp_all add: getProp_def lit_def trim_def isWhiteSpace_def)
  have c: "contribution ?msg = Some (lit ''/a.ts'')"
    using touched_path_selection [OF q, of "[lit ''/b.ts'']" "lit ''/a.ts''"] f by simp
  moreover have "touchedStep [lit ''/b.ts''] ?msg = setAdd [lit ''/b.ts''] (lit ''/a.ts'')"
    using touched_path_selection [OF q, of "[lit ''/b.ts'']" "lit ''/a.ts''"] c by simp
  ultimately show ?thesis
    by (simp add: setAdd_def setHas_def lit_def)
qed

text \<open>
  A field that holds no usable value is not skipped when it is truthy: with a
  \<^verbatim>\<open>file_path\<close> of two blanks, or the number 42, and a good \<^verbatim>\<open>path\<close>, the message
  contributes nothing, while the reading that tries the next field yields the \<^verbatim>\<open>path\<close>.
\<close>

theorem touched_path_no_fallthrough:
  "getSessionTouchedFiles sampleLocaleCompare
     [toolMessage ''Edit'' [lit ''file_path'' \<mapsto> JStr (lit ''  ''),
                            lit ''path'' \<mapsto> JStr (lit ''/a.ts'')]] = [] \<and>
   specContributedPath [lit ''file_path'' \<mapsto> JStr (lit ''  ''),
                        lit ''path'' \<mapsto> JStr (lit ''/a.ts'')] = Some (lit ''/a.ts'') \<and>
   getSessionTouchedFiles sampleLocaleCompare
     [toolMessage ''Edit'' [lit ''file_path'' \<mapsto> JNum 42,
                            lit ''path'' \<mapsto> JStr (lit ''/a.ts'')]] = [] \<and>
   specContributedPath [lit ''file_path'' \<mapsto> JNum 42,
                        lit ''path'' \<mapsto> JStr (lit ''/a.ts'')] = Some (lit ''/a.ts'')"
  by (simp add: example_defs specContributedPath_def specUsablePath_def)

text \<open>
  C8: a path is in the result of \<open>getSessionTouchedFiles\<close> only if some message that
  contributes it is a tool invocation under one of the two shapes (\<^verbatim>\<open>type\<close> or
  \<^verbatim>\<open>role\<close> equal to \<^verbatim>\<open>tool\<close>) whose tool name, lower-cased, is \<^verbatim>\<open>edit\<close>, \<^verbatim>\<open>write\<close>
  or \<^verbatim>\<open>multiedit\<close>. Every other message contributes no path, whatever its input holds:
  the loop leaves the set as it is, and the result is the same with the message removed.
  The two shapes are equivalent: marking a message as a tool message through \<^verbatim>\<open>type\<close>
  or through \<^verbatim>\<open>role\<close> gives the same contribution.
\<close>

theorem touched_only_by_file_modifying_tools:
  "(p \<in> set (getSessionTouchedFiles localeCompare messages) \<longrightarrow>
      (\<exists>msg\<in>set messages.
          contribution msg = Some p \<and>
          (type msg = Some (lit ''tool'') \<or> role msg = Some (lit ''tool'')) \<and>
          (\<exists>name. toolName msg = Some name \<and>
             toLowerCase name \<in> {lit ''edit'', lit ''write'', lit ''multiedit''}))) \<and>
   (\<not> ((type msg = Some (lit ''tool'') \<or> role msg = Some (lit ''tool'')) \<and>
        (\<exists>name. toolName msg = Some name \<and>
           toLowerCase name \<in> {lit ''edit'', lit ''write'', lit ''multiedit''})) \<longrightarrow>
      touchedStep files msg = files \<and>
      getSessionTouchedFiles localeCompare (before @ msg # after) =
        getSessionTouchedFiles localeCompare (before @ after)) \<and>
   contribution (msg\<lparr> type := Some (lit ''tool'') \<rparr>) =
     contribution (msg\<lparr> role := Some (lit ''tool'') \<rparr>)"
proof (intro conjI impI)
  show "contribution (msg\<lparr> type := Some (lit ''tool'') \<rparr>) =
     contribution (msg\<lparr> role := Some (lit ''tool'') \<rparr>)"
    by (cases "toolName msg"; cases "toolInput msg")
       (simp_all add: contribution_def touchedStep_def isToolMessage_def)
next
  assume "p \<in> set (getSessionTouchedFiles localeCompare messages)"
  then obtain m where m: "m \<in> set messages" "contribution m = Some p"
    by (auto simp: set_getSessionTouchedFiles)
  have "isToolMessage m \<and>
        (\<exists>name. toolName m = Some name \<and> toLowerCase name \<in> set FILE_MODIFYING_TOOLS)"
    using m(2) by (rule contribution_Some_qualified)
  then show "\<exists>msg\<in>set messages.
          contribution msg = Some p \<and>
          (type msg = Some (lit ''tool'') \<or> role msg = Some (lit ''tool'')) \<and>
          (\<exists>name. toolName msg = Some name \<and>
             toLowerCase name \<in> {lit ''edit'', lit ''write'', lit ''multiedit''})"
    using m by (auto simp: isToolMessage_def FILE_MODIFYING_TOOLS_def)
next
  assume "\<not> ((type msg = Some (lit ''tool'') \<or> role msg = Some (lit ''tool'')) \<and>
        (\<exists>name. toolName msg = Some name \<and>
           toLowerCase name \<in> {lit ''edit'', lit ''write'', lit ''multiedit''}))"
  then have u: "\<not> (isToolMessage msg \<and>
      (\<exists>name. toolName msg = Some name \<and> toLowerCase name \<in> set FILE_MODIFYING_TOOLS))"
    by (simp add: isToolMessage_def FILE_MODIFYING_TOOLS_def)
  show "touchedStep files msg = files"
    using u by (rule touchedStep_unqualified)
  have "\<And>fs. touchedStep fs msg = fs"
    using u by (rule touchedStep_unqualified)
  then have "fold (\<lambda>msg files. touchedStep files msg) (before @ msg # after) [] =
             fold (\<lambda>msg files. touchedStep files msg) (before @ after) []"
    by (rule fold_touchedStep_skip)
  then show "getSessionTouchedFiles localeCompare (before @ msg # after) =
        getSessionTouchedFiles localeCompare (before @ after)"
    by (simp only: getSessionTouchedFiles_def)
qed

theorem touched_only_by_file_modifying_tools_witness:
  "getSessionTouchedFiles sampleLocaleCompare
     [toolMessage ''Read'' [lit ''file_path'' \<mapsto> JStr (lit ''/a.ts'')],
      \<lparr> type = None, role = Some (lit ''tool''), toolName = Some (lit ''MultiEdit''),
        toolInput = Some [lit ''path'' \<mapsto> JStr (lit ''/b.ts'')] \<rparr>,
      \<lparr> type = Some (lit ''assistant''), role = None, toolName = Some (lit ''Edit''),
        toolInput = Some [lit ''path'' \<mapsto> JStr (lit ''/c.ts'')] \<rparr>] = [lit ''/b.ts''] \<and>
   touchedStep [] (toolMessage ''Read'' [lit ''file_path'' \<mapsto> JStr (lit ''/a.ts'')]) = [] \<and>
   getSessionTouchedFiles sampleLocaleCompare
     [toolMessage ''WRITE'' [lit ''file_path'' \<mapsto> JStr (lit ''/w.ts'')],
      toolMessage ''Read'' [lit ''file_path'' \<mapsto> JStr (lit ''/a.ts'')]] =
   getSessionTouchedFiles sampleLocaleCompare
     [toolMessage ''WRITE'' [lit ''file_path'' \<mapsto> JStr (lit ''/w.ts'')]]"
proof -
  let ?rd = "toolMessage ''Read'' [lit ''file_path'' \<mapsto> JStr (lit ''/a.ts'')]"
  let ?wr = "toolMessage ''WRITE'' [lit ''file_path'' \<mapsto> JStr (lit ''/w.ts'')]"
  have outside: "\<not> ((type ?rd = Some (lit ''tool'') \<or> role ?rd = Some (lit ''tool'')) \<and>
        (\<exists>name. toolName ?rd = Some name \<and>
           toLowerCase name \<in> {lit ''edit'', lit ''write'', lit ''multiedit''}))"
    by (simp add: toolMessage_def toLowerCase_def lit_def)
  have "touchedStep [] ?rd = [] \<and>
      getSessionTouchedFiles sampleLocaleCompare ([?wr] @ ?rd # []) =
        getSessionTouchedFiles sampleLocaleCompare ([?wr] @ [])"
    using touched_only_by_file_modifying_tools
            [of _ sampleLocaleCompare _ ?rd "[]" "[?wr]" "[]"] outside
    by blast
  moreover have "getSessionTouchedFiles sampleLocaleCompare
     [?rd,
      \<lparr> type = None, role = Some (lit ''tool''), toolName = Some (lit ''MultiEdit''),
        toolInput = Some [lit ''path'' \<mapsto> JStr (lit ''/b.ts'')] \<rparr>,
      \<lparr> type = Some (lit ''assistant''), role = None, toolName = Some (lit ''Edit''),
        toolInput = Some [lit ''path'' \<mapsto> JStr (lit ''/c.ts'')] \<rparr>] = [lit ''/b.ts'']"
    by (simp add: example_defs)
  ultimately show ?thesis by simp
qed

text \<open>
  C10, as amended: for every permutation of the session's messages the result of
  \<open>getSessionTouchedFiles\<close> holds the same paths, and it is the same list whenever the
  collation (a consistent comparator) ties no two different touched paths.
\<close>

theorem getSessionTouchedFiles_permutation:
  assumes "mset messages' = mset messages"
  shows
    "set (getSessionTouchedFiles localeCompare messages') =
       set (getSessionTouchedFiles localeCompare messages) \<and>
     ((\<forall>a b. localeCompare a b \<le> 0 \<or> localeCompare b a \<le> 0) \<and>
      (\<forall>a b c. localeCompare a b \<le> 0 \<and> localeCompare b c \<le> 0 \<longrightarrow> localeCompare a c \<le> 0) \<and>
      (\<forall>a b. a \<in> set (getSessionTouchedFiles localeCompare messages) \<and>
             b \<in> set (getSessionTouchedFiles localeCompare messages) \<and>
             localeCompare a b \<le> 0 \<and> localeCompare b a \<le> 0 \<longrightarrow> a = b) \<longrightarrow>
      getSessionTouchedFiles localeCompare messages' =
        getSessionTouchedFiles localeCompare messages)"
proof (intro conjI impI)
  have "set messages' = set messages"
    using assms by (rule mset_eq_setD)
  then show same: "set (getSessionTouchedFiles localeCompare messages') =
       set (getSessionTouchedFiles localeCompare messages)"
    by (simp add: set_getSessionTouchedFiles)
  assume h: "(\<forall>a b. localeCompare a b \<le> 0 \<or> localeCompare b a \<le> 0) \<and>
      (\<forall>a b c. localeCompare a b \<le> 0 \<and> localeCompare b c \<le> 0 \<longrightarrow> localeCompare a c \<le> 0) \<and>
      (\<forall>a b. a \<in> set (getSessionTouchedFiles localeCompare messages) \<and>
             b \<in> set (getSessionTouchedFiles localeCompare messages) \<and>
             localeCompare a b \<le> 0 \<and> localeCompare b a \<le> 0 \<longrightarrow> a = b)"
  have total: "\<And>a b. localeCompare a b \<le> 0 \<or> localeCompare b a \<le> 0"
    using h by blast
  have trans: "\<And>a b c. localeCompare a b \<le> 0 \<Longrightarrow> localeCompare b c \<le> 0
                 \<Longrightarrow> localeCompare a c \<le> 0"
    using h by blast
  have sorted: "\<And>ms. sorted_wrt (\<lambda>a b. localeCompare a b \<le> 0)
                  (getSessionTouchedFiles localeCompare ms)"
    unfolding getSessionTouchedFiles_def Let_def
    by (rule sorted_arraySort [OF total trans])
  have dist: "\<And>ms. distinct (getSessionTouchedFiles localeCompare ms)"
    by (simp add: getSessionTouchedFiles_def arrayFrom_def distinct_arraySort
        distinct_fold_touchedStep)
  have anti: "\<And>a b. a \<in> set (getSessionTouchedFiles localeCompare messages') \<Longrightarrow>
                 b \<in> set (getSessionTouchedFiles localeCompare messages') \<Longrightarrow>
                 localeCompare a b \<le> 0 \<Longrightarrow> localeCompare b a \<le> 0 \<Longrightarrow> a = b"
    using h same by blast
  show "getSessionTouchedFiles localeCompare messages' =
        getSessionTouchedFiles localeCompare messages"
  proof (rule sorted_wrt_unique [where R = "\<lambda>a b. localeCompare a b \<le> 0"])
    fix a b
    assume "a \<in> set (getSessionTouchedFiles localeCompare messages')"
      and "b \<in> set (getSessionTouchedFiles localeCompare messages')"
      and "localeCompare a b \<le> 0" and "localeCompare b a \<le> 0"
    then show "a = b" by (rule anti)
  qed (simp_all add: sorted dist same)
qed

theorem getSessionTouchedFiles_permutation_witness:
  "getSessionTouchedFiles sampleLocaleCompare
     [toolMessage ''Write'' [lit ''file_path'' \<mapsto> JStr (lit ''/a.ts'')],
      toolMessage ''Edit'' [lit ''file_path'' \<mapsto> JStr (lit ''/B.ts'')]] =
   getSessionTouchedFiles sampleLocaleCompare
     [toolMessage ''Edit'' [lit ''file_path'' \<mapsto> JStr (lit ''/B.ts'')],
      toolMessage ''Write'' [lit ''file_path'' \<mapsto> JStr (lit ''/a.ts'')]] \<and>
   getSessionTouchedFiles sampleLocaleCompare
     [toolMessage ''Edit'' [lit ''file_path'' \<mapsto> JStr (lit ''/B.ts'')],
      toolMessage ''Write'' [lit ''file_path'' \<mapsto> JStr (lit ''/a.ts'')]] =
     [lit ''/a.ts'', lit ''/B.ts'']"
proof -
  let ?a = "toolMessage ''Write'' [lit ''file_path'' \<mapsto> JStr (lit ''/a.ts'')]"
  let ?b = "toolMessage ''Edit'' [lit ''file_path'' \<mapsto> JStr (lit ''/B.ts'')]"
  have p: "mset [?a, ?b] = mset [?b, ?a]"
    by simp
  have out: "getSessionTouchedFiles sampleLocaleCompare [?b, ?a] = [lit ''/a.ts'', lit ''/B.ts'']"
    by (simp add: example_defs)
  have anti: "\<forall>a b. a \<in> set (getSessionTouchedFiles sampleLocaleCompare [?b, ?a]) \<and>
             b \<in> set (getSessionTouchedFiles sampleLocaleCompare [?b, ?a]) \<and>
             sampleLocaleCompare a b \<le> 0 \<and> sampleLocaleCompare b a \<le> 0 \<longrightarrow> a = b"
    unfolding out
    by (auto simp: sampleLocaleCompare_def collationKey_def canonicalDecomposition_def
        toLowerCase_def lit_def split: if_splits)
  have total: "\<forall>a b. sampleLocaleCompare a b \<le> 0 \<or> sampleLocaleCompare b a \<le> 0"
    using sampleLocaleCompare_total by blast
  have trans: "\<forall>a b c. sampleLocaleCompare a b \<le> 0 \<and> sampleLocaleCompare b c \<le> 0
                 \<longrightarrow> sampleLocaleCompare a c \<le> 0"
    using sampleLocaleCompare_trans by blast
  have "getSessionTouchedFiles sampleLocaleCompare [?a, ?b] =
        getSessionTouchedFiles sampleLocaleCompare [?b, ?a]"
    using getSessionTouchedFiles_permutation [OF p, of sampleLocaleCompare] total trans anti
    by blast
  then show ?thesis using out by simp
qed

text \<open>
  The two spellings of \<^verbatim>\<open>/caf\<close> with e-acute are different paths that the collation
  ties, so the stable sort returns them in the order the history has them: exchanging
  the two messages exchanges the two paths of the result.
\<close>

theorem getSessionTouchedFiles_order_dependent:
  "getSessionTouchedFiles sampleLocaleCompare
     [toolMessage ''Edit'' [lit ''file_path'' \<mapsto> JStr cafePrecomposed],
      toolMessage ''Edit'' [lit ''file_path'' \<mapsto> JStr cafeDecomposed]] =
     [cafePrecomposed, cafeDecomposed] \<and>
   getSessionTouchedFiles sampleLocaleCompare
     [toolMessage ''Edit'' [lit ''file_path'' \<mapsto> JStr cafeDecomposed],
      toolMessage ''Edit'' [lit ''file_path'' \<mapsto> JStr cafePrecomposed]] =
     [cafeDecomposed, cafePrecomposed] \<and>
   cafePrecomposed \<noteq> cafeDecomposed"
  by (simp add: example_defs)

section \<open>Properties of the git helpers\<close>

lemma getOriginalFromHead_value:
  "getOriginalFromHead os workingDir path =
     Inr (case execSync os
                 (lit ''git show HEAD:'' @ [dquote] @
                    (if isAbsolute os path then relative os workingDir path else path) @ [dquote])
                 \<lparr> cwd = workingDir, timeout = 10000, maxBuffer = Some (10 * 1024 * 1024) \<rparr>
          of Inl e \<Rightarrow> [] | Inr content \<Rightarrow> content)"
  by (simp add: getOriginalFromHead_def tryCatch_def bindE_def Let_def split: sum.splits)

lemma getCurrentFromDisk_value:
  "getCurrentFromDisk os path =
     Inr (if existsSync os path
          then (case fsReadFile os path of Inl e \<Rightarrow> [] | Inr content \<Rightarrow> content)
          else [])"
  by (simp add: getCurrentFromDisk_def tryCatch_def bindE_def split: sum.splits)

lemmas platform_defs =
  getFileDiff_def getOriginalFromHead_def getCurrentFromDisk_def isGitRepo_def hasChanges_def
  tryCatch_def bindE_def samplePlatform_def lit_def dquote_def Let_def
  countLineDifferences_def getChangeStatus_def truthyStr_def newline_def newSet_def
  setAdd_def setHas_def

text \<open>
  C5: no operation of the content resolver throws. \<open>getOriginalFromHead\<close> returns the
  content git printed, and the empty string when the git command fails in any way;
  \<open>getCurrentFromDisk\<close> returns the content read, and the empty string when the file does
  not exist or cannot be read; \<open>isGitRepo\<close> is true when the git command succeeds and
  false when it fails; \<open>hasChanges\<close> is false exactly when the quiet diff exits
  successfully (no change) and true when it fails in any way.
\<close>

theorem content_resolver_fails_soft:
  "getOriginalFromHead os workingDir path =
     Inr (case execSync os
                 (lit ''git show HEAD:'' @ [dquote] @
                    (if isAbsolute os path then relative os workingDir path else path) @ [dquote])
                 \<lparr> cwd = workingDir, timeout = 10000, maxBuffer = Some (10 * 1024 * 1024) \<rparr>
          of Inl e \<Rightarrow> [] | Inr content \<Rightarrow> content) \<and>
   getCurrentFromDisk os path =
     Inr (if existsSync os path
          then (case fsReadFile os path of Inl e \<Rightarrow> [] | Inr content \<Rightarrow> content)
          else []) \<and>
   isGitRepo os workingDir =
     Inr (case execSync os (lit ''git rev-parse --git-dir'')
                 \<lparr> cwd = workingDir, timeout = 5000, maxBuffer = None \<rparr>
          of Inl e \<Rightarrow> False | Inr out \<Rightarrow> True) \<and>
   hasChanges os workingDir path =
     Inr (case execSync os
                 (lit ''git diff --quiet HEAD -- '' @ [dquote] @
                    (if isAbsolute os path then relative os workingDir path else path) @ [dquote])
                 \<lparr> cwd = workingDir, timeout = 5000, maxBuffer = None \<rparr>
          of Inl e \<Rightarrow> True | Inr out \<Rightarrow> False)"
proof (intro conjI)
  show "getOriginalFromHead os workingDir path =
     Inr (case execSync os
                 (lit ''git show HEAD:'' @ [dquote] @
                    (if isAbsolute os path then relative os workingDir path else path) @ [dquote])
                 \<lparr> cwd = workingDir, timeout = 10000, maxBuffer = Some (10 * 1024 * 1024) \<rparr>
          of Inl e \<Rightarrow> [] | Inr content \<Rightarrow> content)"
    by (rule getOriginalFromHead_value)
  show "getCurrentFromDisk os path =
     Inr (if existsSync os path
          then (case fsReadFile os path of Inl e \<Rightarrow> [] | Inr content \<Rightarrow> content)
          else [])"
    by (rule getCurrentFromDisk_value)
  show "isGitRepo os workingDir =
     Inr (case execSync os (lit ''git rev-parse --git-dir'')
                 \<lparr> cwd = workingDir, timeout = 5000, maxBuffer = None \<rparr>
          of Inl e \<Rightarrow> False | Inr out \<Rightarrow> True)"
    by (simp add: isGitRepo_def tryCatch_def bindE_def split: sum.splits)
  show "hasChanges os workingDir path =
     Inr (case execSync os
                 (lit ''git diff --quiet HEAD -- '' @ [dquote] @
                    (if isAbsolute os path then relative os workingDir path else path) @ [dquote])
                 \<lparr> cwd = workingDir, timeout = 5000, maxBuffer = None \<rparr>
          of Inl e \<Rightarrow> True | Inr out \<Rightarrow> False)"
    by (simp add: hasChanges_def tryCatch_def bindE_def Let_def split: sum.splits)
qed

theorem content_resolver_fails_soft_witness:
  "getOriginalFromHead samplePlatform (lit ''/repo'') (lit ''/repo/a.ts'') = Inr (lit ''old'') \<and>
   getOriginalFromHead samplePlatform (lit ''/repo'') (lit ''/repo/locked.ts'') = Inr [] \<and>
   getCurrentFromDisk samplePlatform (lit ''/repo/a.ts'') = Inr (lit ''new'') \<and>
   getCurrentFromDisk samplePlatform (lit ''/repo/locked.ts'') = Inr [] \<and>
   getCurrentFromDisk samplePlatform (lit ''/repo/gone.ts'') = Inr [] \<and>
   isGitRepo samplePlatform (lit ''/repo'') = Inr True \<and>
   isGitRepo samplePlatform (lit ''/tmp'') = Inr False \<and>
   hasChanges samplePlatform (lit ''/repo'') (lit ''/repo/same.ts'') = Inr False \<and>
   hasChanges samplePlatform (lit ''/repo'') (lit ''/repo/a.ts'') = Inr True \<and>
   hasChanges samplePlatform (lit ''/tmp'') (lit ''/tmp/x.ts'') = Inr True"
  using content_resolver_fails_soft [of samplePlatform "lit ''/repo''" "lit ''/repo/a.ts''"]
        content_resolver_fails_soft [of samplePlatform "lit ''/repo''" "lit ''/repo/locked.ts''"]
        content_resolver_fails_soft [of samplePlatform "lit ''/repo''" "lit ''/repo/gone.ts''"]
        content_resolver_fails_soft [of samplePlatform "lit ''/repo''" "lit ''/repo/same.ts''"]
        content_resolver_fails_soft [of samplePlatform "lit ''/tmp''" "lit ''/tmp/x.ts''"]
  by (simp add: samplePlatform_def lit_def dquote_def)

text \<open>
  C3: when the committed content and the disk content that the resolver returns are
  equal, \<open>getFileDiff\<close> returns the placeholder entry: no additions, no deletions, and
  the empty string for both snapshots. Otherwise the entry carries the counts of
  \<open>countLineDifferences\<close> and the status of \<open>getChangeStatus\<close> on the two contents (and
  the two contents themselves).
\<close>

theorem getFileDiff_net_change:
  assumes "getOriginalFromHead os workingDir path = Inr orig"
    and "getCurrentFromDisk os path = Inr modif"
  shows
    "\<exists>change. getFileDiff os workingDir path = Inr change \<and> filePath change = path \<and>
       (orig = modif \<longrightarrow>
          additions change = 0 \<and> deletions change = 0 \<and>
          original change = [] \<and> modified change = []) \<and>
       (orig \<noteq> modif \<longrightarrow>
          additions change = LineCounts.additions (countLineDifferences orig modif) \<and>
          deletions change = LineCounts.deletions (countLineDifferences orig modif) \<and>
          status change = getChangeStatus orig modif \<and>
          original change = orig \<and> modified change = modif)"
  using assms by (simp add: getFileDiff_def bindE_def Let_def)

theorem getFileDiff_net_change_witness:
  "getFileDiff samplePlatform (lit ''/repo'') (lit ''/repo/same.ts'') =
     Inr \<lparr> filePath = lit ''/repo/same.ts'', status = Modified, additions = 0, deletions = 0,
           original = [], modified = [], error = None \<rparr> \<and>
   getFileDiff samplePlatform (lit ''/repo'') (lit ''/repo/a.ts'') =
     Inr \<lparr> filePath = lit ''/repo/a.ts'', status = Modified, additions = 1, deletions = 1,
           original = lit ''old'', modified = lit ''new'', error = None \<rparr>"
proof -
  have same: "getOriginalFromHead samplePlatform (lit ''/repo'') (lit ''/repo/same.ts'') =
                Inr (lit ''same'')"
    "getCurrentFromDisk samplePlatform (lit ''/repo/same.ts'') = Inr (lit ''same'')"
    by (simp_all add: platform_defs)
  have a: "getOriginalFromHead samplePlatform (lit ''/repo'') (lit ''/repo/a.ts'') =
             Inr (lit ''old'')"
    "getCurrentFromDisk samplePlatform (lit ''/repo/a.ts'') = Inr (lit ''new'')"
    by (simp_all add: platform_defs)
  show ?thesis
    using getFileDiff_net_change [OF same] getFileDiff_net_change [OF a]
    by (simp add: platform_defs)
qed

text \<open>
  C4, as amended: whatever fails while the contents of a file are retrieved,
  \<open>getFileDiff\<close> does not throw: it returns the entry of that file. The content of the
  side that failed is the empty string, and the \<open>error\<close> field is never set.
\<close>

theorem getFileDiff_retrieval_failure:
  "\<exists>change. getFileDiff os workingDir path = Inr change \<and> filePath change = path \<and>
     error change = None \<and>
     ((\<exists>e. execSync os
              (lit ''git show HEAD:'' @ [dquote] @
                 (if isAbsolute os path then relative os workingDir path else path) @ [dquote])
              \<lparr> cwd = workingDir, timeout = 10000, maxBuffer = Some (10 * 1024 * 1024) \<rparr>
            = Inl e) \<longrightarrow> original change = []) \<and>
     ((\<not> existsSync os path \<or> (\<exists>e. fsReadFile os path = Inl e)) \<longrightarrow> modified change = [])"
  by (auto simp: getFileDiff_def bindE_def Let_def getOriginalFromHead_value
      getCurrentFromDisk_value)

theorem getFileDiff_retrieval_failure_witness:
  "getFileDiff samplePlatform (lit ''/repo'') (lit ''/repo/big.ts'') =
     Inr \<lparr> filePath = lit ''/repo/big.ts'', status = Added, additions = 1, deletions = 1,
           original = [], modified = lit ''big'', error = None \<rparr>"
  using getFileDiff_retrieval_failure [of samplePlatform "lit ''/repo''" "lit ''/repo/big.ts''"]
  by (simp add: platform_defs)

text \<open>
  The file \<^verbatim>\<open>locked.ts\<close> cannot be read and git fails on it; its entry has no
  \<open>error\<close>.
\<close>

theorem getFileDiff_error_never_set:
  "fsReadFile samplePlatform (lit ''/repo/locked.ts'') = Inl (FsError ''EACCES'') \<and>
   execSync samplePlatform
     (lit ''git show HEAD:'' @ [dquote] @ lit ''locked.ts'' @ [dquote])
     \<lparr> cwd = lit ''/repo'', timeout = 10000, maxBuffer = Some (10 * 1024 * 1024) \<rparr> =
     Inl (ExitStatus 128) \<and>
   getFileDiff samplePlatform (lit ''/repo'') (lit ''/repo/locked.ts'') =
     Inr \<lparr> filePath = lit ''/repo/locked.ts'', status = Modified, additions = 0,
           deletions = 0, original = [], modified = [], error = None \<rparr>"
  by (simp add: platform_defs)

end
